theory Spec2Isabelle
  imports Main "HOL-Library.Sublist"
begin

section \<open>Strings\<close>

text \<open>
  A Python \<open>str\<close> is a finite sequence of code points, and \<open>len\<close> counts code points.
  The type of code points is left as a parameter \<open>'c\<close>; concrete examples below use
  ASCII words over HOL's \<open>char\<close>.
\<close>

type_synonym 'c str = "'c list"

text \<open>\<open>mot.startswith(pref)\<close>: the first \<open>len(pref)\<close> code points of \<open>mot\<close> are \<open>pref\<close>.\<close>

definition startswith :: "'c str \<Rightarrow> 'c str \<Rightarrow> bool" where
  "startswith mot pref = (length pref \<le> length mot \<and> take (length pref) mot = pref)"

text \<open>\<open>mot.endswith(suf)\<close>: the last \<open>len(suf)\<close> code points of \<open>mot\<close> are \<open>suf\<close>.\<close>

definition endswith :: "'c str \<Rightarrow> 'c str \<Rightarrow> bool" where
  "endswith mot suf = (length suf \<le> length mot \<and> drop (length mot - length suf) mot = suf)"

text \<open>
  \<open>mot.find(sub, start)\<close> for a start offset that is already normalised (non-negative):
  the lowest offset \<open>i \<ge> start\<close> with \<open>mot[i : i + len(sub)] == sub\<close>, or \<open>-1\<close>.
  The window must lie inside \<open>mot\<close>, so the search gives up once
  \<open>i + len(sub) > len(mot)\<close>; with an empty \<open>sub\<close> it answers \<open>start\<close> as long as
  \<open>start \<le> len(mot)\<close>.
\<close>

function find_from :: "'c str \<Rightarrow> 'c str \<Rightarrow> nat \<Rightarrow> int" where
  "find_from mot sub i =
     (if length mot < i + length sub then - 1
      else if take (length sub) (drop i mot) = sub then int i
      else find_from mot sub (Suc i))"
  by pat_completeness auto
termination
  by (relation "measure (\<lambda>(mot, sub, i). Suc (length mot) - i)") auto

declare find_from.simps [simp del]

text \<open>
  \<open>mot.find(sub, start)\<close> for any integer \<open>start\<close>: a negative start counts from the
  end of \<open>mot\<close> and is clipped at \<open>0\<close>, as for a slice.
\<close>

definition find_str :: "'c str \<Rightarrow> 'c str \<Rightarrow> int \<Rightarrow> int" where
  "find_str mot sub start =
     (let n = int (length mot);
          s = (if start < 0 then max 0 (start + n) else start)
      in find_from mot sub (nat s))"

text \<open>\<open>s in mot\<close> on strings: substring search, true when an occurrence is found.\<close>

definition contains :: "'c str \<Rightarrow> 'c str \<Rightarrow> bool" where
  "contains mot s = (find_str mot s 0 \<noteq> - 1)"

section \<open>Loading\<close>

datatype error = ResourceNotFound | DecodingError

text \<open>
  The file system as \<open>read_data\<close> sees it: opening a name and reading all its lines as
  UTF-8 text either fails (no such file, or bytes that do not decode) or gives the lines
  in file order, each still carrying its line terminator.
\<close>

type_synonym 'c filesystem = "string \<Rightarrow> error + 'c str list"

text \<open>
  \<open>line.strip()\<close>: leading and trailing white space removed. Which code points are white
  space is Python's table; it is the parameter \<open>isspace\<close>.
\<close>

definition strip :: "('c \<Rightarrow> bool) \<Rightarrow> 'c str \<Rightarrow> 'c str" where
  "strip isspace line = rev (dropWhile isspace (rev (dropWhile isspace line)))"

definition read_data :: "('c \<Rightarrow> bool) \<Rightarrow> 'c filesystem \<Rightarrow> string \<Rightarrow> error + 'c str list" where
  "read_data isspace fs filename =
     (case fs filename of
        Inl e \<Rightarrow> Inl e
      | Inr file \<Rightarrow> Inr (map (strip isspace) file))"

definition ensemble_mots :: "('c \<Rightarrow> bool) \<Rightarrow> 'c filesystem \<Rightarrow> string \<Rightarrow> error + 'c str set" where
  "ensemble_mots isspace fs filename =
     (case read_data isspace fs filename of
        Inl e \<Rightarrow> Inl e
      | Inr mots \<Rightarrow> Inr (set mots))"

text \<open>
  A small file system to run the loader on: one corpus of three lines, the first and
  the last the same word, and no other file.
\<close>

definition corpus_fs :: "char filesystem" where
  "corpus_fs name =
     (if name = ''corpus.txt''
      then Inr [[CHR ''a'', CHR 0x0A], [CHR ''b'', CHR 0x0A], [CHR ''a'', CHR 0x0A]]
      else Inl ResourceNotFound)"

section \<open>Queries\<close>

text \<open>
  The lexicon is a Python set of strings. Each of the three filters below is a set
  comprehension \<open>{mot for mot in mots if \<dots>}\<close>, written as such.
\<close>

definition mots_de_n_lettres :: "'c str set \<Rightarrow> int \<Rightarrow> 'c str set" where
  "mots_de_n_lettres mots n = {mot \<in> mots. int (length mot) = n}"

definition mots_avec :: "'c str set \<Rightarrow> 'c str \<Rightarrow> 'c str set" where
  "mots_avec mots s = {mot \<in> mots. contains mot s}"

definition cherche1 :: "'c str set \<Rightarrow> 'c str \<Rightarrow> 'c str \<Rightarrow> int \<Rightarrow> 'c str set" where
  "cherche1 mots start stop n =
     {mot \<in> mots. int (length mot) = n \<and> startswith mot start \<and> endswith mot stop}"

subsection \<open>The compound search\<close>

text \<open>
  Each of \<open>lstart\<close>, \<open>lmid\<close>, \<open>lstop\<close> is either one string or a list of strings;
  \<open>cherche2\<close> tests \<open>isinstance(x, str)\<close> and wraps a lone string into a list.
\<close>

datatype 'c strs = Single "'c str" | Many "'c str list"

fun as_list :: "'c strs \<Rightarrow> 'c str list" where
  "as_list (Single s) = [s]"
| "as_list (Many l) = l"

text \<open>
  The \<open>while idx != -1\<close> loop over the occurrences of \<open>milieu\<close> in \<open>mot\<close>. It answers
  whether the loop left through \<open>break\<close>, that is whether it set
  \<open>contient_au_milieu\<close>.
\<close>

function while_idx :: "'c str \<Rightarrow> 'c str \<Rightarrow> int \<Rightarrow> bool" where
  "while_idx mot milieu idx =
     (if idx \<noteq> - 1 then
        (if idx > 0 \<and> idx + int (length milieu) < int (length mot) then True
         else while_idx mot milieu (find_str mot milieu (idx + 1)))
      else False)"
  by pat_completeness auto
termination
proof (relation "measure (\<lambda>(mot, milieu, idx).
                   if idx = - 1 then 0 else Suc (nat (int (length mot) + 2 - idx)))")
  show "wf (measure (\<lambda>(mot :: 'c str, milieu :: 'c str, idx).
              if idx = - 1 then 0 else Suc (nat (int (length mot) + 2 - idx))))"
    by simp
next
  fix mot milieu :: "'c str" and idx :: int
  assume running: "idx \<noteq> - 1"
  have range: "find_from m s i = - 1 \<or> (int i \<le> find_from m s i \<and> find_from m s i \<le> int (length m))"
    for m s :: "'c str" and i
  proof (induction m s i rule: find_from.induct)
    case (1 m s i)
    show ?case
    proof (cases "length m < i + length s \<or> take (length s) (drop i m) = s")
      case True
      then show ?thesis by (auto simp: find_from.simps [of m s i])
    next
      case False
      then have "find_from m s i = find_from m s (Suc i)"
        by (simp add: find_from.simps [of m s i])
      with False 1 show ?thesis by auto
    qed
  qed
  let ?s = "nat (if idx + 1 < 0 then max 0 (idx + 1 + int (length mot)) else idx + 1)"
  have next_idx: "find_str mot milieu (idx + 1) = find_from mot milieu ?s"
    by (simp add: find_str_def Let_def)
  from range [of mot milieu ?s] running
  show "((mot, milieu, find_str mot milieu (idx + 1)), mot, milieu, idx)
          \<in> measure (\<lambda>(mot, milieu, idx).
                if idx = - 1 then 0 else Suc (nat (int (length mot) + 2 - idx)))"
    unfolding next_idx by (auto split: if_splits)
qed

declare while_idx.simps [simp del]

text \<open>
  The \<open>for milieu in lmid\<close> loop: the first \<open>milieu\<close> whose occurrence loop sets
  \<open>contient_au_milieu\<close> ends it; the value is \<open>contient_au_milieu\<close> after the loop.
\<close>

fun for_milieu :: "'c str \<Rightarrow> 'c str list \<Rightarrow> bool" where
  "for_milieu mot [] = False"
| "for_milieu mot (milieu # lmid) =
     (if while_idx mot milieu (find_str mot milieu 0) then True
      else for_milieu mot lmid)"

text \<open>\<open>any(p(x) for x in xs)\<close>.\<close>

fun any_py :: "('a \<Rightarrow> bool) \<Rightarrow> 'a list \<Rightarrow> bool" where
  "any_py p [] = False"
| "any_py p (x # xs) = (if p x then True else any_py p xs)"

text \<open>
  The \<open>for mot in mots\<close> loop. A Python set yields its members in an order of its own
  choosing, each once; \<open>mots\<close> is that sequence, and \<open>resultat\<close> the set built so far.
  Each \<open>continue\<close> goes on with the rest and leaves \<open>resultat\<close> as it is.
\<close>

fun for_mot :: "'c str list \<Rightarrow> 'c str list \<Rightarrow> 'c str list \<Rightarrow> 'c str list \<Rightarrow> int \<Rightarrow> int
                  \<Rightarrow> 'c str set \<Rightarrow> 'c str set" where
  "for_mot [] lstart lmid lstop nmin nmax resultat = resultat"
| "for_mot (mot # mots) lstart lmid lstop nmin nmax resultat =
     (let longueur = int (length mot) in
      if longueur < nmin \<or> longueur > nmax then
        for_mot mots lstart lmid lstop nmin nmax resultat
      else if \<not> any_py (\<lambda>pref. startswith mot pref) lstart then
        for_mot mots lstart lmid lstop nmin nmax resultat
      else if \<not> any_py (\<lambda>suf. endswith mot suf) lstop then
        for_mot mots lstart lmid lstop nmin nmax resultat
      else if \<not> for_milieu mot lmid then
        for_mot mots lstart lmid lstop nmin nmax resultat
      else for_mot mots lstart lmid lstop nmin nmax (insert mot resultat))"

definition cherche2 :: "'c str list \<Rightarrow> 'c strs \<Rightarrow> 'c strs \<Rightarrow> 'c strs \<Rightarrow> int \<Rightarrow> int \<Rightarrow> 'c str set" where
  "cherche2 mots lstart lmid lstop nmin nmax =
     for_mot mots (as_list lstart) (as_list lmid) (as_list lstop) nmin nmax {}"

section \<open>Occurrences\<close>

text \<open>
  The vocabulary in which the behaviour of the searches is stated: \<open>sub\<close> occurs in
  \<open>mot\<close> at offset \<open>i\<close> when \<open>mot[i : i + len(sub)] == sub\<close> with the window inside
  \<open>mot\<close>; the occurrence is strictly interior when it starts after offset \<open>0\<close> and ends
  before \<open>len(mot)\<close>.
\<close>

definition occurs_at :: "'c str \<Rightarrow> 'c str \<Rightarrow> nat \<Rightarrow> bool" where
  "occurs_at mot sub i = (i + length sub \<le> length mot \<and> take (length sub) (drop i mot) = sub)"

definition interior_at :: "'c str \<Rightarrow> 'c str \<Rightarrow> nat \<Rightarrow> bool" where
  "interior_at mot sub j = (occurs_at mot sub j \<and> 0 < j \<and> j + length sub < length mot)"

section \<open>String primitives\<close>


lemma find_from_step:
  "find_from mot sub i =
     (if occurs_at mot sub i then int i
      else if length mot < i + length sub then - 1
      else find_from mot sub (Suc i))"
  by (subst find_from.simps) (auto simp: occurs_at_def)

lemma occurs_at_bound: "occurs_at mot sub j \<Longrightarrow> j + length sub \<le> length mot"
  by (simp add: occurs_at_def)

lemma find_from_none:
  "(find_from mot sub i = - 1) = (\<forall>j\<ge>i. \<not> occurs_at mot sub j)"
proof (induction mot sub i rule: find_from.induct)
  case (1 mot sub i)
  show ?case
  proof (cases "occurs_at mot sub i")
    case True
    then show ?thesis by (subst find_from_step) auto
  next
    case no: False
    show ?thesis
    proof (cases "length mot < i + length sub")
      case True
      then have "\<forall>j\<ge>i. \<not> occurs_at mot sub j" by (auto dest: occurs_at_bound)
      with True no show ?thesis by (subst find_from_step) simp
    next
      case False
      with no have "take (length sub) (drop i mot) \<noteq> sub" by (simp add: occurs_at_def)
      with False 1 have ih: "(find_from mot sub (Suc i) = - 1) = (\<forall>j\<ge>Suc i. \<not> occurs_at mot sub j)"
        by simp
      have "(\<forall>j\<ge>i. \<not> occurs_at mot sub j) = (\<forall>j\<ge>Suc i. \<not> occurs_at mot sub j)"
        using no by (metis Suc_leD Suc_leI le_neq_implies_less)
      with ih no False show ?thesis by (subst find_from_step) simp
    qed
  qed
qed

lemma find_from_some:
  "find_from mot sub i = int j \<Longrightarrow>
     i \<le> j \<and> occurs_at mot sub j \<and> (\<forall>k. i \<le> k \<and> k < j \<longrightarrow> \<not> occurs_at mot sub k)"
proof (induction mot sub i rule: find_from.induct)
  case (1 mot sub i)
  show ?case
  proof (cases "occurs_at mot sub i")
    case True
    with 1(2) have "j = i" by (subst (asm) find_from_step) simp
    with True show ?thesis by auto
  next
    case no: False
    with 1(2) have inside: "\<not> length mot < i + length sub"
      and nxt: "find_from mot sub (Suc i) = int j"
      by (subst (asm) find_from_step, simp split: if_splits)+
    from no inside have "take (length sub) (drop i mot) \<noteq> sub" by (simp add: occurs_at_def)
    with inside nxt 1(1) have
      ih: "Suc i \<le> j \<and> occurs_at mot sub j \<and> (\<forall>k. Suc i \<le> k \<and> k < j \<longrightarrow> \<not> occurs_at mot sub k)"
      by simp
    have "\<not> occurs_at mot sub k" if "i \<le> k" "k < j" for k
      using that ih no by (cases "k = i") auto
    with ih show ?thesis by auto
  qed
qed

lemma find_from_cases:
  "find_from mot sub i = - 1 \<or> (\<exists>j. find_from mot sub i = int j)"
proof (induction mot sub i rule: find_from.induct)
  case (1 mot sub i)
  show ?case
  proof (cases "occurs_at mot sub i \<or> length mot < i + length sub")
    case True
    then show ?thesis by (subst (1 2) find_from_step) auto
  next
    case False
    then have "find_from mot sub i = find_from mot sub (Suc i)"
      by (subst find_from_step) simp
    moreover from False have "take (length sub) (drop i mot) \<noteq> sub"
      by (simp add: occurs_at_def)
    ultimately show ?thesis using False 1 by simp
  qed
qed

lemma find_str_nonneg: "0 \<le> start \<Longrightarrow> find_str mot sub start = find_from mot sub (nat start)"
  by (simp add: find_str_def Let_def)

lemma while_idx_from:
  "while_idx mot milieu (find_from mot milieu i) = (\<exists>j\<ge>i. interior_at mot milieu j)"
proof (induction "Suc (length mot) - i" arbitrary: i rule: less_induct)
  case less
  from find_from_cases [of mot milieu i] show ?case
  proof
    assume none: "find_from mot milieu i = - 1"
    then have "\<forall>j\<ge>i. \<not> occurs_at mot milieu j" by (simp add: find_from_none)
    then have "\<not> (\<exists>j\<ge>i. interior_at mot milieu j)" by (auto simp: interior_at_def)
    with none show ?thesis by (simp add: while_idx.simps [of mot milieu "- 1"])
  next
    assume "\<exists>j. find_from mot milieu i = int j"
    then obtain j where found: "find_from mot milieu i = int j" ..
    from find_from_some [OF found] have ij: "i \<le> j" and occ: "occurs_at mot milieu j"
      and first: "\<And>k. i \<le> k \<Longrightarrow> k < j \<Longrightarrow> \<not> occurs_at mot milieu k" by auto
    show ?thesis
    proof (cases "interior_at mot milieu j")
      case True
      then have "0 < int j \<and> int j + int (length milieu) < int (length mot)"
        by (simp add: interior_at_def)
      then have "while_idx mot milieu (int j)" by (subst while_idx.simps) simp
      with True ij found show ?thesis by auto
    next
      case False
      with occ have "\<not> (0 < j \<and> j + length milieu < length mot)"
        by (simp add: interior_at_def)
      then have nb: "\<not> (0 < int j \<and> int j + int (length milieu) < int (length mot))"
        by linarith
      have "while_idx mot milieu (int j) = while_idx mot milieu (find_str mot milieu (int j + 1))"
        using nb by (subst while_idx.simps) auto
      also have "find_str mot milieu (int j + 1) = find_from mot milieu (Suc j)"
        by (simp add: find_str_nonneg nat_add_distrib)
      also have "while_idx mot milieu (find_from mot milieu (Suc j)) = (\<exists>k\<ge>Suc j. interior_at mot milieu k)"
        using occurs_at_bound [OF occ] ij by (intro less) simp
      also have "\<dots> = (\<exists>k\<ge>i. interior_at mot milieu k)"
      proof
        assume "\<exists>k\<ge>Suc j. interior_at mot milieu k"
        with ij show "\<exists>k\<ge>i. interior_at mot milieu k" by (meson Suc_leD le_trans)
      next
        assume "\<exists>k\<ge>i. interior_at mot milieu k"
        then obtain k where k: "i \<le> k" "interior_at mot milieu k" by auto
        with first [of k] have "\<not> k < j" by (auto simp: interior_at_def)
        moreover from k False have "k \<noteq> j" by auto
        ultimately have "Suc j \<le> k" by simp
        with k show "\<exists>k\<ge>Suc j. interior_at mot milieu k" by auto
      qed
      finally show ?thesis using found by simp
    qed
  qed
qed

lemma while_idx_first:
  "while_idx mot milieu (find_str mot milieu 0) = (\<exists>j. interior_at mot milieu j)"
  using while_idx_from [of mot milieu 0] by (simp add: find_str_nonneg)

lemma for_milieu_iff:
  "for_milieu mot lmid = (\<exists>milieu\<in>set lmid. \<exists>j. interior_at mot milieu j)"
  by (induction lmid) (auto simp: while_idx_first)

lemma any_py_iff: "any_py p xs = (\<exists>x\<in>set xs. p x)"
  by (induction xs) simp_all

lemma startswith_prefix: "startswith mot pref = prefix pref mot"
  by (auto simp: startswith_def prefix_def take_is_prefix dest: prefix_length_le)
   (metis append_take_drop_id)

lemma endswith_suffix: "endswith mot suf = suffix suf mot"
  by (auto simp: endswith_def suffix_def) (metis append_take_drop_id)

lemma occurs_at_split:
  "occurs_at mot sub i = (\<exists>ps ss. mot = ps @ sub @ ss \<and> length ps = i)"
proof
  assume occ: "occurs_at mot sub i"
  then have "mot = take i mot @ sub @ drop (length sub) (drop i mot)"
    by (metis append_take_drop_id occurs_at_def)
  moreover from occ have "length (take i mot) = i" by (simp add: occurs_at_def)
  ultimately show "\<exists>ps ss. mot = ps @ sub @ ss \<and> length ps = i" by blast
next
  assume "\<exists>ps ss. mot = ps @ sub @ ss \<and> length ps = i"
  then show "occurs_at mot sub i" by (auto simp: occurs_at_def)
qed

lemma contains_iff: "contains mot s = (\<exists>i. occurs_at mot s i)"
  by (auto simp: contains_def find_str_nonneg find_from_none)

lemma contains_sublist: "contains mot s = sublist s mot"
  by (auto simp: contains_iff occurs_at_split sublist_def)

lemma for_mot_step:
  "for_mot (mot # mots) lstart lmid lstop nmin nmax resultat =
     for_mot mots lstart lmid lstop nmin nmax
       (if nmin \<le> int (length mot) \<and> int (length mot) \<le> nmax
           \<and> (\<exists>pref\<in>set lstart. prefix pref mot)
           \<and> (\<exists>suf\<in>set lstop. suffix suf mot)
           \<and> (\<exists>milieu\<in>set lmid. \<exists>j. interior_at mot milieu j)
        then insert mot resultat else resultat)"
  by (auto simp: Let_def any_py_iff startswith_prefix endswith_suffix for_milieu_iff)

lemma for_mot_eq:
  "for_mot mots lstart lmid lstop nmin nmax resultat =
     resultat \<union> {mot \<in> set mots.
        nmin \<le> int (length mot) \<and> int (length mot) \<le> nmax
        \<and> (\<exists>pref\<in>set lstart. prefix pref mot)
        \<and> (\<exists>suf\<in>set lstop. suffix suf mot)
        \<and> (\<exists>milieu\<in>set lmid. \<exists>j. interior_at mot milieu j)}"
proof (induction mots arbitrary: resultat)
  case Nil
  then show ?case by simp
next
  case (Cons mot mots)
  show ?case
    unfolding for_mot_step Cons by auto
qed

lemma interior_at_explicit:
  "interior_at mot sub j =
     (0 < j \<and> j + length sub < length mot \<and> take (length sub) (drop j mot) = sub)"
  by (auto simp: interior_at_def occurs_at_def)

section \<open>The filters on concrete sets\<close>

lemma mots_de_n_lettres_empty: "mots_de_n_lettres {} n = {}"
  by (simp add: mots_de_n_lettres_def)

lemma mots_de_n_lettres_insert:
  "mots_de_n_lettres (insert mot mots) n =
     (if int (length mot) = n then insert mot (mots_de_n_lettres mots n)
      else mots_de_n_lettres mots n)"
  by (auto simp: mots_de_n_lettres_def)

lemma mots_avec_empty: "mots_avec {} s = {}"
  by (simp add: mots_avec_def)

lemma mots_avec_insert:
  "mots_avec (insert mot mots) s =
     (if contains mot s then insert mot (mots_avec mots s) else mots_avec mots s)"
  by (auto simp: mots_avec_def)

lemma cherche1_empty: "cherche1 {} start stop n = {}"
  by (simp add: cherche1_def)

lemma cherche1_insert:
  "cherche1 (insert mot mots) start stop n =
     (if int (length mot) = n \<and> startswith mot start \<and> endswith mot stop
      then insert mot (cherche1 mots start stop n) else cherche1 mots start stop n)"
  by (auto simp: cherche1_def)

lemma cherche1_eq:
  "cherche1 mots start stop n =
     {mot \<in> mots. int (length mot) = n \<and> prefix start mot \<and> suffix stop mot}"
  by (simp add: cherche1_def startswith_prefix endswith_suffix)

lemma interior_at_empty: "interior_at mot [] i = (0 < i \<and> i < length mot)"
  by (auto simp: interior_at_explicit)

lemma interior_at_length: "interior_at mot sub j \<Longrightarrow> 2 \<le> length mot"
  by (simp add: interior_at_explicit)

section \<open>The compound search returns exactly the matching words\<close>

text \<open>
  Claim C1. For every set of words (in whatever order the loop meets its members), lists
  \<open>lstart\<close>, \<open>lmid\<close>, \<open>lstop\<close> and integers \<open>nmin\<close>, \<open>nmax\<close>, \<open>cherche2\<close> returns
  exactly the words \<open>w\<close> of the set with \<open>nmin \<le> len(w) \<le> nmax\<close> that start with some
  member of \<open>lstart\<close>, end with some member of \<open>lstop\<close>, and in which some member \<open>m\<close>
  of \<open>lmid\<close> has an occurrence at an offset \<open>i > 0\<close> with \<open>i + len(m) < len(w)\<close>.
\<close>

theorem cherche2_exact:
  "cherche2 mots (Many lstart) (Many lmid) (Many lstop) nmin nmax =
     {w \<in> set mots.
        nmin \<le> int (length w) \<and> int (length w) \<le> nmax
        \<and> (\<exists>p\<in>set lstart. prefix p w)
        \<and> (\<exists>s\<in>set lstop. suffix s w)
        \<and> (\<exists>m\<in>set lmid. \<exists>i. 0 < i \<and> i + length m < length w
               \<and> take (length m) (drop i w) = m)}"
  unfolding cherche2_def for_mot_eq interior_at_explicit by simp

theorem cherche2_exact_witness:
  "cherche2 [''abz'', ''az'', ''bbz'', ''abab'', ''baz'', ''bz'', ''abcdz'']
       (Many [''a'', ''b'']) (Many [''c'', ''b'']) (Many [''z'']) 3 4 = {''abz'', ''bbz''}
   \<and> {w \<in> set [''abz'', ''az'', ''bbz'', ''abab'', ''baz'', ''bz'', ''abcdz''].
        3 \<le> int (length w) \<and> int (length w) \<le> 4
        \<and> (\<exists>p\<in>set [''a'', ''b'']. prefix p w)
        \<and> (\<exists>s\<in>set [''z'']. suffix s w)
        \<and> (\<exists>m\<in>set [''c'', ''b'']. \<exists>i. 0 < i \<and> i + length m < length w
               \<and> take (length m) (drop i w) = m)} = {''abz'', ''bbz''}"
  unfolding cherche2_exact [symmetric]
  by (simp add: cherche2_def startswith_def endswith_def find_str_def find_from.simps
      while_idx.simps insert_commute)

section \<open>The empty string as an interior\<close>

text \<open>
  Claim C2. When \<open>lmid\<close> contains the empty string, the interior test of \<open>cherche2\<close>
  (the value of \<open>contient_au_milieu\<close> after the loop over \<open>lmid\<close>) holds for a word exactly
  when the word has at least two code points: the empty string is a strictly interior
  occurrence at the offsets \<open>1 .. len(mot) - 1\<close> and at no other, so a word of length
  \<open>0\<close> or \<open>1\<close> has none.
\<close>

theorem empty_interior:
  "[] \<in> set lmid \<Longrightarrow>
     for_milieu mot lmid = (2 \<le> length mot)
     \<and> interior_at mot [] i = (1 \<le> i \<and> i \<le> length mot - 1 \<and> 2 \<le> length mot)"
proof
  assume e: "[] \<in> set lmid"
  show "for_milieu mot lmid = (2 \<le> length mot)"
  proof
    assume "for_milieu mot lmid"
    then show "2 \<le> length mot" by (auto simp: for_milieu_iff dest: interior_at_length)
  next
    assume "2 \<le> length mot"
    then have "interior_at mot [] 1" by (simp add: interior_at_empty)
    with e show "for_milieu mot lmid" unfolding for_milieu_iff by blast
  qed
  show "interior_at mot [] i = (1 \<le> i \<and> i \<le> length mot - 1 \<and> 2 \<le> length mot)"
    unfolding interior_at_empty by auto
qed

theorem empty_interior_witness:
  "[] \<in> set [''xyz'', ''''] \<and> for_milieu ''ab'' [''xyz'', ''''] \<and> \<not> for_milieu ''a'' [''xyz'', '''']
   \<and> \<not> for_milieu '''' [''xyz'', '''']
   \<and> interior_at ''abc'' '''' 1 \<and> interior_at ''abc'' '''' 2
   \<and> \<not> interior_at ''abc'' '''' 0 \<and> \<not> interior_at ''abc'' '''' 3"
  using empty_interior [of "[''xyz'', '''']" "''ab''" 0]
    empty_interior [of "[''xyz'', '''']" "''a''" 0]
    empty_interior [of "[''xyz'', '''']" "''''" 0]
    empty_interior [of "[''xyz'', '''']" "''abc''" 0]
    empty_interior [of "[''xyz'', '''']" "''abc''" 1]
    empty_interior [of "[''xyz'', '''']" "''abc''" 2]
    empty_interior [of "[''xyz'', '''']" "''abc''" 3]
  by (simp del: for_milieu.simps)

section \<open>A first occurrence at the boundary does not end the scan\<close>

text \<open>
  Claim C3. Let \<open>milieu\<close> be a non-empty member of \<open>lmid\<close> that occurs in \<open>mot\<close> at an
  offset \<open>i\<close> touching a boundary and again at a later offset \<open>j\<close>, possibly overlapping
  the first occurrence, where it is strictly interior. Then the first \<open>find\<close> answers the
  boundary occurrence, which fails the bound check, and the loop that searches again from
  \<open>idx + 1\<close> still sets \<open>contient_au_milieu\<close>: the word passes the interior test.
\<close>

theorem later_interior_occurrence:
  "milieu \<noteq> [] \<Longrightarrow> milieu \<in> set lmid \<Longrightarrow>
   occurs_at mot milieu i \<Longrightarrow> i = 0 \<or> i + length milieu = length mot \<Longrightarrow>
   i < j \<Longrightarrow> occurs_at mot milieu j \<Longrightarrow> 0 < j \<Longrightarrow> j + length milieu < length mot \<Longrightarrow>
     find_str mot milieu 0 = int i \<and> \<not> (0 < i \<and> i + length milieu < length mot)
     \<and> while_idx mot milieu (find_str mot milieu 0) \<and> for_milieu mot lmid"
proof (intro conjI)
  assume ne: "milieu \<noteq> []" and mem: "milieu \<in> set lmid"
    and occ_i: "occurs_at mot milieu i" and bnd: "i = 0 \<or> i + length milieu = length mot"
    and lt: "i < j" and occ_j: "occurs_at mot milieu j"
    and int_j: "0 < j" "j + length milieu < length mot"
  from bnd lt int_j have i0: "i = 0" by auto
  have "find_from mot milieu 0 \<noteq> - 1" using occ_i by (auto simp: find_from_none)
  with find_from_cases [of mot milieu 0] obtain k where k: "find_from mot milieu 0 = int k" by auto
  from find_from_some [OF k] occ_i i0 have "k = 0" by (cases k) auto
  with k i0 show "find_str mot milieu 0 = int i" by (simp add: find_str_nonneg)
  from i0 show "\<not> (0 < i \<and> i + length milieu < length mot)" by simp
  from occ_j int_j have "interior_at mot milieu j" by (simp add: interior_at_def)
  then show w: "while_idx mot milieu (find_str mot milieu 0)" unfolding while_idx_first ..
  with mem show "for_milieu mot lmid" unfolding for_milieu_iff while_idx_first by blast
qed

theorem later_interior_occurrence_witness:
  "''aa'' \<noteq> [] \<and> ''aa'' \<in> set [''aa''] \<and> occurs_at ''aaaa'' ''aa'' 0
   \<and> occurs_at ''aaaa'' ''aa'' 1 \<and> 1 + length ''aa'' < length ''aaaa''
   \<and> find_str ''aaaa'' ''aa'' 0 = 0
   \<and> while_idx ''aaaa'' ''aa'' (find_str ''aaaa'' ''aa'' 0) \<and> for_milieu ''aaaa'' [''aa'']"
  using later_interior_occurrence [of "''aa''" "[''aa'']" "''aaaa''" 0 1]
  by (auto simp: occurs_at_def simp del: for_milieu.simps)

section \<open>The anchored search\<close>

text \<open>
  Claim C4, as amended. \<open>cherche1\<close> returns exactly the words of the set that have length
  \<open>n\<close>, start with \<open>start\<close> and end with \<open>stop\<close>, a subset of the words of length \<open>n\<close>.
  The two windows may overlap, and nothing is asked of \<open>len(start) + len(stop)\<close>;
  whenever \<open>start\<close> alone or \<open>stop\<close> alone is longer than \<open>n\<close> the result is the empty
  set.
\<close>

theorem cherche1_exact:
  "cherche1 mots start stop n =
     {mot \<in> mots. int (length mot) = n \<and> prefix start mot \<and> suffix stop mot}
   \<and> cherche1 mots start stop n \<subseteq> mots_de_n_lettres mots n
   \<and> (n < int (length start) \<or> n < int (length stop) \<longrightarrow> cherche1 mots start stop n = {})"
proof (intro conjI impI)
  show "cherche1 mots start stop n =
     {mot \<in> mots. int (length mot) = n \<and> prefix start mot \<and> suffix stop mot}"
    by (rule cherche1_eq)
  show "cherche1 mots start stop n \<subseteq> mots_de_n_lettres mots n"
    by (auto simp: cherche1_def mots_de_n_lettres_def)
  assume "n < int (length start) \<or> n < int (length stop)"
  then show "cherche1 mots start stop n = {}"
    unfolding cherche1_eq by (auto dest: prefix_length_le suffix_length_le)
qed

theorem cherche1_exact_witness:
  "3 < int (length ''abcd'') \<and> cherche1 {''abc'', ''abcd'', ''ab''} ''abcd'' ''c'' 3 = {}"
proof -
  have h: "3 < int (length ''abcd'') \<or> 3 < int (length ''c'')" by simp
  from cherche1_exact [of "{''abc'', ''abcd'', ''ab''}" "''abcd''" "''c''" 3]
  have "3 < int (length ''abcd'') \<or> 3 < int (length ''c'')
          \<longrightarrow> cherche1 {''abc'', ''abcd'', ''ab''} ''abcd'' ''c'' 3 = {}" by (elim conjE)
  with h have "cherche1 {''abc'', ''abcd'', ''ab''} ''abcd'' ''c'' 3 = {}" by (rule rev_mp)
  then show ?thesis by simp
qed

text \<open>
  The claim as first stated also asks for the empty set whenever
  \<open>len(start) + len(stop) > n\<close>. With \<open>start = stop = "zz"\<close> and \<open>n = 2\<close> the sum is
  \<open>4\<close>, and the word \<open>"zz"\<close> is returned: the windows overlap entirely.
\<close>

theorem cherche1_overlap_counterexample:
  "int (length ''zz'') + int (length ''zz'') > 2 \<and> cherche1 {''zz''} ''zz'' ''zz'' 2 = {''zz''}
   \<and> cherche1 {''zz''} ''zz'' ''zz'' 2 \<noteq> {}"
  by (simp add: cherche1_insert cherche1_empty startswith_def endswith_def)

section \<open>The length filter partitions the lexicon\<close>

text \<open>
  Claim C5. \<open>mots_de_n_lettres\<close> returns exactly the members of the set whose number of
  code points is \<open>n\<close>, a subset of the set; the results for two different lengths are
  disjoint; and the union of the results over the lengths that occur in the set is the
  set.
\<close>

theorem mots_de_n_lettres_partition:
  "mots_de_n_lettres mots n = {mot \<in> mots. int (length mot) = n}
   \<and> mots_de_n_lettres mots n \<subseteq> mots
   \<and> (n \<noteq> m \<longrightarrow> mots_de_n_lettres mots n \<inter> mots_de_n_lettres mots m = {})
   \<and> (\<Union>k \<in> (\<lambda>mot. int (length mot)) ` mots. mots_de_n_lettres mots k) = mots"
  by (auto simp: mots_de_n_lettres_def)

theorem mots_de_n_lettres_partition_witness:
  "(2::int) \<noteq> 3
   \<and> mots_de_n_lettres {''ab'', ''abc'', ''de''} 2 \<inter> mots_de_n_lettres {''ab'', ''abc'', ''de''} 3 = {}"
proof -
  have h: "(2::int) \<noteq> 3" by simp
  from mots_de_n_lettres_partition [of "{''ab'', ''abc'', ''de''}" 2 3]
  have "(2::int) \<noteq> 3 \<longrightarrow>
          mots_de_n_lettres {''ab'', ''abc'', ''de''} 2 \<inter> mots_de_n_lettres {''ab'', ''abc'', ''de''} 3 = {}"
    by (elim conjE)
  with h have "mots_de_n_lettres {''ab'', ''abc'', ''de''} 2 \<inter> mots_de_n_lettres {''ab'', ''abc'', ''de''} 3 = {}"
    by (rule rev_mp)
  with h show ?thesis by (rule conjI)
qed

section \<open>Degenerate lengths and ranges\<close>

text \<open>
  Claim C6, as amended. The queries are total functions with no error result: every loop
  of the model carries its termination proof. \<open>mots_de_n_lettres\<close> with a negative \<open>n\<close>
  returns the empty set; with \<open>n = 0\<close> it returns the words of length \<open>0\<close> of the set,
  which is the empty set unless the set holds the empty word; and \<open>cherche2\<close> with
  \<open>nmin > nmax\<close> returns the empty set.
\<close>

theorem degenerate_ranges:
  "(n < 0 \<longrightarrow> mots_de_n_lettres mots n = {})
   \<and> mots_de_n_lettres mots 0 = mots \<inter> {[]}
   \<and> (nmax < nmin \<longrightarrow> cherche2 ws lstart lmid lstop nmin nmax = {})"
  by (auto simp: mots_de_n_lettres_def cherche2_def for_mot_eq)

theorem degenerate_ranges_witness:
  "(- 1 :: int) < 0 \<and> mots_de_n_lettres {''ab'', ''''} (- 1) = {}
   \<and> (2 :: int) < 3
   \<and> cherche2 [''aba'', ''ab''] (Single ''a'') (Single ''b'') (Single ''a'') 3 2 = {}"
  using degenerate_ranges [of "- 1" "{''ab'', ''''}" 2 3 "[''aba'', ''ab'']"
      "Single ''a''" "Single ''b''" "Single ''a''"]
  by simp

text \<open>
  The claim as first stated asks for the empty set at \<open>n = 0\<close> too. A blank line of the
  corpus is loaded as the empty word, and a set that holds it has a word of length \<open>0\<close>.
\<close>

theorem mots_de_n_lettres_zero_counterexample:
  "mots_de_n_lettres {''''} 0 = {''''} \<and> mots_de_n_lettres {''''} 0 \<noteq> {}"
  by (simp add: mots_de_n_lettres_insert mots_de_n_lettres_empty)

section \<open>The substring filter\<close>

text \<open>
  Claim C7. \<open>mots_avec\<close> returns exactly the words of the set in which \<open>s\<close> occurs
  somewhere, code point for code point; with the empty \<open>s\<close> it returns the whole set.
\<close>

theorem mots_avec_exact:
  "mots_avec mots s = {mot \<in> mots. \<exists>ps ss. mot = ps @ s @ ss} \<and> mots_avec mots [] = mots"
  by (auto simp: mots_avec_def contains_iff occurs_at_split)

theorem mots_avec_exact_witness:
  "mots_avec {''black'', ''dock'', ''sans'', ''''} ''k'' = {''black'', ''dock''}
   \<and> mots_avec {''black'', ''dock'', ''sans'', ''''} [] = {''black'', ''dock'', ''sans'', ''''}"
proof
  show "mots_avec {''black'', ''dock'', ''sans'', ''''} ''k'' = {''black'', ''dock''}"
    by (simp add: mots_avec_insert mots_avec_empty contains_def find_str_def find_from.simps)
  from mots_avec_exact [of "{''black'', ''dock'', ''sans'', ''''}" "[]"]
  show "mots_avec {''black'', ''dock'', ''sans'', ''''} [] = {''black'', ''dock'', ''sans'', ''''}"
    by (elim conjE)
qed

section \<open>A lone string is a one-element list\<close>

text \<open>
  Claim C8. Passing a single string for \<open>lstart\<close>, \<open>lmid\<close> or \<open>lstop\<close> gives the same
  result as passing the list that holds just that string, for the three arguments at
  once and for each of them alone.
\<close>

theorem single_is_singleton:
  "cherche2 mots (Single a) (Single b) (Single c) nmin nmax =
     cherche2 mots (Many [a]) (Many [b]) (Many [c]) nmin nmax
   \<and> cherche2 mots (Single a) lmid lstop nmin nmax = cherche2 mots (Many [a]) lmid lstop nmin nmax
   \<and> cherche2 mots lstart (Single b) lstop nmin nmax = cherche2 mots lstart (Many [b]) lstop nmin nmax
   \<and> cherche2 mots lstart lmid (Single c) nmin nmax = cherche2 mots lstart lmid (Many [c]) nmin nmax"
  by (simp add: cherche2_def)

theorem single_is_singleton_witness:
  "cherche2 [''abz'', ''az'', ''abbz'', ''zba''] (Many [''a'']) (Many [''b'']) (Many [''z'']) 3 3 = {''abz''}
   \<and> cherche2 [''abz'', ''az'', ''abbz'', ''zba''] (Single ''a'') (Single ''b'') (Single ''z'') 3 3 = {''abz''}"
proof -
  have many: "cherche2 [''abz'', ''az'', ''abbz'', ''zba''] (Many [''a'']) (Many [''b'']) (Many [''z'']) 3 3
                = {''abz''}"
    by (simp add: cherche2_def startswith_def endswith_def find_str_def find_from.simps
        while_idx.simps)
  have "cherche2 [''abz'', ''az'', ''abbz'', ''zba''] (Single ''a'') (Single ''b'') (Single ''z'') 3 3
          = cherche2 [''abz'', ''az'', ''abbz'', ''zba''] (Many [''a'']) (Many [''b'']) (Many [''z'']) 3 3"
    by (rule single_is_singleton [THEN conjunct1])
  with many show ?thesis by simp
qed

section \<open>The set of words is the list of words without its duplicates\<close>

text \<open>
  Claim C9. For every file name, \<open>ensemble_mots\<close> is \<open>read_data\<close> with the duplicates
  removed: it fails exactly when \<open>read_data\<close> fails, with the same error, and otherwise
  a word belongs to the set if and only if it occurs in the list.
\<close>

theorem ensemble_mots_dedup:
  "ensemble_mots isspace fs filename =
     (case read_data isspace fs filename of
        Inl e \<Rightarrow> Inl e
      | Inr mots \<Rightarrow> Inr (set (remdups mots)))
   \<and> (\<forall>e. (ensemble_mots isspace fs filename = Inl e) = (read_data isspace fs filename = Inl e))
   \<and> (\<forall>mots. read_data isspace fs filename = Inr mots \<longrightarrow>
         (\<exists>S. ensemble_mots isspace fs filename = Inr S \<and> (\<forall>w. (w \<in> S) = (w \<in> set mots))))"
  by (auto simp: ensemble_mots_def split: sum.splits)

theorem ensemble_mots_dedup_witness:
  "read_data (\<lambda>c. c \<in> {CHR '' '', CHR 0x0A, CHR 0x0D, CHR 0x09}) corpus_fs ''corpus.txt''
      = Inr [''a'', ''b'', ''a'']
   \<and> ensemble_mots (\<lambda>c. c \<in> {CHR '' '', CHR 0x0A, CHR 0x0D, CHR 0x09}) corpus_fs ''corpus.txt''
      = Inr {''a'', ''b''}
   \<and> read_data (\<lambda>c. c \<in> {CHR '' '', CHR 0x0A, CHR 0x0D, CHR 0x09}) corpus_fs ''nowhere.txt''
      = Inl ResourceNotFound
   \<and> ensemble_mots (\<lambda>c. c \<in> {CHR '' '', CHR 0x0A, CHR 0x0D, CHR 0x09}) corpus_fs ''nowhere.txt''
      = Inl ResourceNotFound"
proof -
  let ?sp = "\<lambda>c. c \<in> {CHR '' '', CHR 0x0A, CHR 0x0D, CHR 0x09}"
  have r1: "read_data ?sp corpus_fs ''corpus.txt'' = Inr [''a'', ''b'', ''a'']"
    by (simp add: read_data_def corpus_fs_def strip_def)
  have r2: "read_data ?sp corpus_fs ''nowhere.txt'' = Inl ResourceNotFound"
    by (simp add: read_data_def corpus_fs_def)
  from ensemble_mots_dedup [of ?sp corpus_fs "''corpus.txt''"]
  have "ensemble_mots ?sp corpus_fs ''corpus.txt'' =
     (case read_data ?sp corpus_fs ''corpus.txt'' of
        Inl e \<Rightarrow> Inl e
      | Inr mots \<Rightarrow> Inr (set (remdups mots)))" by (elim conjE)
  then have e1: "ensemble_mots ?sp corpus_fs ''corpus.txt'' = Inr {''a'', ''b''}"
    unfolding r1 by (simp add: insert_commute)
  from ensemble_mots_dedup [of ?sp corpus_fs "''nowhere.txt''"]
  have "ensemble_mots ?sp corpus_fs ''nowhere.txt'' =
     (case read_data ?sp corpus_fs ''nowhere.txt'' of
        Inl e \<Rightarrow> Inl e
      | Inr mots \<Rightarrow> Inr (set (remdups mots)))" by (elim conjE)
  then have e2: "ensemble_mots ?sp corpus_fs ''nowhere.txt'' = Inl ResourceNotFound"
    unfolding r2 by simp
  from r1 e1 r2 e2 show ?thesis by (intro conjI)
qed

section \<open>An empty list of alternatives\<close>

text \<open>
  Claim C10. When \<open>lstart\<close>, \<open>lmid\<close> or \<open>lstop\<close> is the empty list, \<open>cherche2\<close> returns
  the empty set, whatever the other arguments are.
\<close>

theorem empty_collection:
  "cherche2 mots (Many []) lmid lstop nmin nmax = {}
   \<and> cherche2 mots lstart (Many []) lstop nmin nmax = {}
   \<and> cherche2 mots lstart lmid (Many []) nmin nmax = {}"
  by (simp add: cherche2_def for_mot_eq)

theorem empty_collection_witness:
  "cherche2 [''abz'', ''az''] (Many []) (Single ''b'') (Single ''z'') 3 3 = {}
   \<and> cherche2 [''abz'', ''az''] (Single ''a'') (Many []) (Single ''z'') 3 3 = {}
   \<and> cherche2 [''abz'', ''az''] (Single ''a'') (Single ''b'') (Many []) 3 3 = {}"
  by (rule empty_collection)

end
